theory Spec2Isabelle
  imports Complex_Main "HOL-Library.Word" "HOL-Library.AList"
begin

section \<open>Numbers and records of the colour utilities\<close>

text \<open>
  The TypeScript sources compute with the type \<open>number\<close>. The embedding reads a number as
  a real: every value that the properties below speak about is either an integer of small
  magnitude or a quotient of such integers, and the order comparisons made on them are decided
  far away from the precision of a double. \<open>Math.round\<close> rounds to the nearest integer, with
  the half-way case going up, which is \<open>\<lfloor>x + 1/2\<rfloor>\<close>.
\<close>

record RGB =
  r :: real
  g :: real
  b :: real


datatype error = InvalidHexColor string | TypeError

definition Math_round :: "real \<Rightarrow> int" where
  "Math_round x = \<lfloor>x + 1 / 2\<rfloor>"

section \<open>Hexadecimal encoding and decoding\<close>

text \<open>\<open>Number.prototype.toString(16)\<close> on an integer: lower-case digits, most significant
  first, no leading zero, and a minus sign in front of the digits of a negative number.\<close>

definition hex_digit :: "nat \<Rightarrow> char" where
  "hex_digit d = ''0123456789abcdef'' ! d"

fun to_hex_nat :: "nat \<Rightarrow> string" where
  "to_hex_nat n = (if n < 16 then [hex_digit n] else to_hex_nat (n div 16) @ [hex_digit (n mod 16)])"

declare to_hex_nat.simps [simp del]

definition toString16 :: "int \<Rightarrow> string" where
  "toString16 n = (if n < 0 then CHR ''-'' # to_hex_nat (nat (- n)) else to_hex_nat (nat n))"

text \<open>\<open>padStart(2, '0')\<close>: zeros in front until the string has two characters.\<close>

definition padStart2 :: "string \<Rightarrow> string" where
  "padStart2 str = replicate (2 - length str) CHR ''0'' @ str"

definition toHex :: "real \<Rightarrow> string" where
  "toHex n = padStart2 (toString16 (Math_round n))"

definition rgbToHex :: "RGB \<Rightarrow> string" where
  "rgbToHex rgb = CHR ''#'' # toHex (r rgb) @ toHex (g rgb) @ toHex (b rgb)"

text \<open>
  The regular expression \<open>/^#?([a-f\d]{2})([a-f\d]{2})([a-f\d]{2})$/i\<close>, used by both
  decoders. The class \<open>[a-f\d]\<close> under the flag \<open>i\<close> accepts the decimal digits and the
  letters a to f in either case. \<open>hex_regex_exec\<close> returns the three captured groups.
\<close>

definition is_hex_char :: "char \<Rightarrow> bool" where
  "is_hex_char c = (c \<in> set ''0123456789abcdefABCDEF'')"

definition strip_hash :: "string \<Rightarrow> string" where
  "strip_hash str = (case str of [] \<Rightarrow> [] | c # cs \<Rightarrow> if c = CHR ''#'' then cs else c # cs)"

definition hex_regex_exec :: "string \<Rightarrow> (string \<times> string \<times> string) option" where
  "hex_regex_exec str =
     (let t = strip_hash str
      in if length t = 6 \<and> list_all is_hex_char t
         then Some (take 2 t, take 2 (drop 2 t), drop 4 t)
         else None)"

text \<open>\<open>parseInt(str, 16)\<close>, on the strings the regular expression captures: hexadecimal
  digits only, read most significant first.\<close>

definition hex_value :: "char \<Rightarrow> nat" where
  "hex_value c =
     (if c \<in> set ''0123456789'' then of_char c - of_char CHR ''0''
      else if c \<in> set ''abcdef'' then of_char c - of_char CHR ''a'' + 10
      else of_char c - of_char CHR ''A'' + 10)"

definition parseInt16 :: "string \<Rightarrow> nat" where
  "parseInt16 str = foldl (\<lambda>acc c. 16 * acc + hex_value c) 0 str"

text \<open>\<open>hexToRgb\<close> of the colour utilities: throws on a string the expression rejects.\<close>

definition hexToRgb :: "string \<Rightarrow> error + RGB" where
  "hexToRgb hex =
     (case hex_regex_exec hex of
        None \<Rightarrow> Inl (InvalidHexColor hex)
      | Some (g1, g2, g3) \<Rightarrow>
          Inr \<lparr>r = real (parseInt16 g1), g = real (parseInt16 g2), b = real (parseInt16 g3)\<rparr>)"

text \<open>The private \<open>hexToRgb\<close> of \<open>palette.ts\<close>: black on a string the expression rejects.\<close>

definition palette_hexToRgb :: "string \<Rightarrow> RGB" where
  "palette_hexToRgb hex =
     (case hex_regex_exec hex of
        None \<Rightarrow> \<lparr>r = 0, g = 0, b = 0\<rparr>
      | Some (g1, g2, g3) \<Rightarrow>
          \<lparr>r = real (parseInt16 g1), g = real (parseInt16 g2), b = real (parseInt16 g3)\<rparr>)"

text \<open>A pixel of the data model: three integer channel intensities between 0 and 255.\<close>

definition is_pixel :: "RGB \<Rightarrow> bool" where
  "is_pixel p = (r p \<in> \<int> \<and> 0 \<le> r p \<and> r p \<le> 255 \<and>
                 g p \<in> \<int> \<and> 0 \<le> g p \<and> g p \<le> 255 \<and>
                 b p \<in> \<int> \<and> 0 \<le> b p \<and> b p \<le> 255)"

section \<open>RGB and HSL\<close>




text \<open>The function the source calls \<open>ciede2000\<close>: the Euclidean distance of two pixels.\<close>

definition ciede2000 :: "RGB \<Rightarrow> RGB \<Rightarrow> real" where
  "ciede2000 rgb1 rgb2 =
     (let dr = r rgb1 - r rgb2; dg = g rgb1 - g rgb2; db = b rgb1 - b rgb2
      in sqrt (dr * dr + dg * dg + db * db))"

text \<open>A running minimum that starts at \<open>Infinity\<close> is an optional real, \<open>None\<close> for
  \<open>Infinity\<close>; \<open>lt_inf d m\<close> is the test \<open>d < m\<close>.\<close>

definition lt_inf :: "real \<Rightarrow> real option \<Rightarrow> bool" where
  "lt_inf d m = (case m of None \<Rightarrow> True | Some v \<Rightarrow> d < v)"

section \<open>Palette extraction by k-means\<close>

text \<open>
  The initial centroids are pixels at distinct random indices. The random source is an
  explicit argument: the list \<open>draws\<close> holds one natural number for each call of
  \<open>Math.random\<close>, and the index drawn is that number modulo the number of pixels, which
  ranges over all indices as \<open>Math.floor(Math.random() * pixels.length)\<close> does. The loop
  runs until it has enough centroids; when the draws run out before that, the result is
  \<open>None\<close>.
\<close>

fun init_centroids :: "RGB list \<Rightarrow> int \<Rightarrow> nat list \<Rightarrow> nat set \<Rightarrow> RGB list \<Rightarrow> RGB list option" where
  "init_centroids pixels numColors draws usedIndices centroids =
     (if int (length centroids) < min numColors (int (length pixels))
      then (case draws of
              [] \<Rightarrow> None
            | d # ds \<Rightarrow>
                let idx = d mod length pixels
                in if idx \<notin> usedIndices
                   then init_centroids pixels numColors ds (insert idx usedIndices)
                          (centroids @ [pixels ! idx])
                   else init_centroids pixels numColors ds usedIndices centroids)
      else Some centroids)"

declare init_centroids.simps [simp del]

text \<open>The index of the nearest centroid: the first one at the least distance, and 0 when
  there is no centroid at all.\<close>

definition nearestIdx :: "RGB list \<Rightarrow> RGB \<Rightarrow> nat" where
  "nearestIdx centroids pixel =
     snd (foldl (\<lambda>(minDist, nearest) (centroid, idx).
                   let dist = ciede2000 pixel centroid
                   in if lt_inf dist minDist then (Some dist, idx) else (minDist, nearest))
                (None, 0) (zip centroids [0..<length centroids]))"

text \<open>\<open>clusters[nearestIdx].push(pixel)\<close> throws a \<open>TypeError\<close> when there is no such
  cluster, which ends the whole call.\<close>

definition push_pixel :: "RGB list \<Rightarrow> error + RGB list list \<Rightarrow> RGB \<Rightarrow> error + RGB list list" where
  "push_pixel centroids acc pixel =
     (case acc of
        Inl e \<Rightarrow> Inl e
      | Inr clusters \<Rightarrow>
          let i = nearestIdx centroids pixel
          in if i < length clusters then Inr (clusters[i := clusters ! i @ [pixel]])
             else Inl TypeError)"

definition assign_pixels :: "RGB list \<Rightarrow> RGB list \<Rightarrow> error + RGB list list" where
  "assign_pixels centroids pixels =
     foldl (push_pixel centroids) (Inr (map (\<lambda>_. []) centroids)) pixels"

definition cluster_avg :: "RGB list \<Rightarrow> RGB" where
  "cluster_avg cluster =
     foldl (\<lambda>acc pixel. \<lparr>r = r acc + r pixel / real (length cluster),
                          g = g acc + g pixel / real (length cluster),
                          b = b acc + b pixel / real (length cluster)\<rparr>)
           \<lparr>r = 0, g = 0, b = 0\<rparr> cluster"

definition update_centroid :: "RGB \<times> RGB list \<Rightarrow> RGB" where
  "update_centroid cc =
     (case cc of (centroid, cluster) \<Rightarrow>
        if length cluster > 0
        then let avg = cluster_avg cluster
             in \<lparr>r = of_int (Math_round (r avg)),
                 g = of_int (Math_round (g avg)),
                 b = of_int (Math_round (b avg))\<rparr>
        else centroid)"

definition kmeans_iteration :: "RGB list \<Rightarrow> RGB list \<Rightarrow> error + RGB list" where
  "kmeans_iteration pixels centroids =
     (case assign_pixels centroids pixels of
        Inl e \<Rightarrow> Inl e
      | Inr clusters \<Rightarrow> Inr (map update_centroid (zip centroids clusters)))"

fun kmeans :: "nat \<Rightarrow> RGB list \<Rightarrow> RGB list \<Rightarrow> error + RGB list" where
  "kmeans 0 pixels centroids = Inr centroids"
| "kmeans (Suc n) pixels centroids =
     (case kmeans_iteration pixels centroids of
        Inl e \<Rightarrow> Inl e
      | Inr centroids' \<Rightarrow> kmeans n pixels centroids')"

definition luminance :: "RGB \<Rightarrow> real" where
  "luminance c = 0.299 * r c + 0.587 * g c + 0.114 * b c"

text \<open>
  \<open>Array.prototype.sort\<close> with a comparison function is a stable sort: \<open>u\<close> stays in front
  of a later \<open>v\<close> unless the comparison of \<open>u\<close> with \<open>v\<close> is positive. Inserting the elements
  from the right, each in front of the first element it need not follow, computes it.
\<close>

fun insert_by :: "('a \<Rightarrow> 'a \<Rightarrow> real) \<Rightarrow> 'a \<Rightarrow> 'a list \<Rightarrow> 'a list" where
  "insert_by cmp u [] = [u]"
| "insert_by cmp u (v # vs) = (if cmp u v \<le> 0 then u # v # vs else v # insert_by cmp u vs)"

definition Array_sort :: "('a \<Rightarrow> 'a \<Rightarrow> real) \<Rightarrow> 'a list \<Rightarrow> 'a list" where
  "Array_sort cmp xs = foldr (insert_by cmp) xs []"

text \<open>\<open>extractPalette\<close>: \<open>None\<close> when the draws run out during the initialisation,
  otherwise the error thrown or the palette returned.\<close>

definition extractPalette :: "nat list \<Rightarrow> RGB list \<Rightarrow> int \<Rightarrow> (error + string list) option" where
  "extractPalette draws pixels numColors =
     (if length pixels = 0 then Some (Inr [])
      else
        case init_centroids pixels numColors draws {} [] of
          None \<Rightarrow> None
        | Some centroids \<Rightarrow>
            Some (case kmeans 10 pixels centroids of
                    Inl e \<Rightarrow> Inl e
                  | Inr final \<Rightarrow>
                      Inr (map rgbToHex
                             (Array_sort (\<lambda>c1 c2. luminance c2 - luminance c1) final))))"

section \<open>The dominant colour\<close>

text \<open>\<open>colorDistance\<close> of \<open>palette.ts\<close>: both arguments are decoded by the private decoder.\<close>

definition colorDistance :: "string \<Rightarrow> string \<Rightarrow> real" where
  "colorDistance hex1 hex2 =
     (let rgb1 = palette_hexToRgb hex1; rgb2 = palette_hexToRgb hex2;
          dr = r rgb1 - r rgb2; dg = g rgb1 - g rgb2; db = b rgb1 - b rgb2
      in sqrt (dr * dr + dg * dg + db * db))"

text \<open>
  A JavaScript \<open>Map\<close> keeps its keys in the order of their first insertion; \<open>set\<close> on a key
  that is present replaces the value where it stands. That is an association list with
  \<open>AList.update\<close>. \<open>counts.get(key) || 0\<close> is \<open>Map_get_or_0\<close>.
\<close>

definition Map_get_or_0 :: "('k \<times> nat) list \<Rightarrow> 'k \<Rightarrow> nat" where
  "Map_get_or_0 m k = (case map_of m k of None \<Rightarrow> 0 | Some n \<Rightarrow> n)"

definition closestColor :: "string list \<Rightarrow> RGB \<Rightarrow> string" where
  "closestColor palette pixel =
     (let pixelHex = rgbToHex pixel
      in snd (foldl (\<lambda>(minDist, closest) paletteColor.
                       let dist = colorDistance pixelHex paletteColor
                       in if lt_inf dist minDist then (Some dist, paletteColor)
                          else (minDist, closest))
                    (None, palette ! 0) palette))"

definition count_pixels :: "string list \<Rightarrow> RGB list \<Rightarrow> (string \<times> nat) list" where
  "count_pixels palette pixels =
     foldl (\<lambda>counts pixel.
              let c = closestColor palette pixel
              in AList.update c (Map_get_or_0 counts c + 1) counts)
           (foldl (\<lambda>counts color. AList.update color 0 counts) [] palette)
           pixels"

definition findDominantColor :: "RGB list \<Rightarrow> string list \<Rightarrow> string" where
  "findDominantColor pixels palette =
     (if length palette = 0 then ''#000000''
      else snd (foldl (\<lambda>(maxCount, dominant) (color, count).
                         if count > maxCount then (count, color) else (maxCount, dominant))
                      (0, palette ! 0) (count_pixels palette pixels)))"

section \<open>Bitmaps, the background colour and the two similarity tests\<close>

text \<open>
  The image library hands over a bitmap: its width, its height and, for every pixel, one
  32-bit colour with red in the highest byte and alpha in the lowest, row after row. A
  decoded image has at least one pixel and holds width times height colours, and the
  sources read it at positions inside the image only: the four corners and the positions
  of a scan. \<open>getPixelColor\<close> reads the colour at such a position and \<open>intToRGBA\<close>
  splits it into its four channels.
\<close>

record bitmap =
  width :: nat
  height :: nat
  data :: "32 word list"

record RGBA = RGB +
  a :: real

definition getPixelColor :: "bitmap \<Rightarrow> nat \<Rightarrow> nat \<Rightarrow> 32 word" where
  "getPixelColor img px py = data img ! (width img * py + px)"

definition intToRGBA :: "32 word \<Rightarrow> RGBA" where
  "intToRGBA i =
     \<lparr>r = real (unat (drop_bit 24 i)),
      g = real (unat (take_bit 8 (drop_bit 16 i))),
      b = real (unat (take_bit 8 (drop_bit 8 i))),
      a = real (unat (take_bit 8 i))\<rparr>"

definition rgbaToInt :: "nat \<Rightarrow> nat \<Rightarrow> nat \<Rightarrow> nat \<Rightarrow> 32 word" where
  "rgbaToInt cr cg cb ca = of_nat (((cr * 256 + cg) * 256 + cb) * 256 + ca)"

text \<open>\<open>isColorSimilar\<close> of \<open>crop.ts\<close>: the alpha channel is tested first.\<close>

definition crop_isColorSimilar :: "RGBA \<Rightarrow> RGBA \<Rightarrow> real \<Rightarrow> bool" where
  "crop_isColorSimilar color1 color2 tolerance =
     (if \<bar>a color1 - a color2\<bar> > tolerance then False
      else \<bar>r color1 - r color2\<bar> \<le> tolerance \<and>
           \<bar>g color1 - g color2\<bar> \<le> tolerance \<and>
           \<bar>b color1 - b color2\<bar> \<le> tolerance)"

text \<open>\<open>isColorSimilar\<close> of \<open>bgRemove.ts\<close>: red, green and blue only.\<close>

definition bgRemove_isColorSimilar :: "RGBA \<Rightarrow> RGBA \<Rightarrow> real \<Rightarrow> bool" where
  "bgRemove_isColorSimilar color1 color2 tolerance =
     (\<bar>r color1 - r color2\<bar> \<le> tolerance \<and>
      \<bar>g color1 - g color2\<bar> \<le> tolerance \<and>
      \<bar>b color1 - b color2\<bar> \<le> tolerance)"

text \<open>
  \<open>getMostCommonColor\<close> (\<open>crop.ts\<close>) and \<open>getMostFrequentColor\<close> (\<open>bgRemove.ts\<close>) are the
  same function: count the colours in a \<open>Map\<close>, then take the first key whose count is
  above every count before it. Both are called with the four corner colours.
\<close>

definition count_colors :: "32 word list \<Rightarrow> (32 word \<times> nat) list" where
  "count_colors colors =
     foldl (\<lambda>counts color. AList.update color (Map_get_or_0 counts color + 1) counts) [] colors"


definition getMostFrequentColor :: "32 word list \<Rightarrow> 32 word" where
  "getMostFrequentColor colors =
     snd (foldl (\<lambda>(maxCount, mostFrequent) (color, count).
                   if count > maxCount then (count, color) else (maxCount, mostFrequent))
                (0, colors ! 0) (count_colors colors))"


text \<open>\<open>image.scan(0, 0, width, height, f)\<close> calls \<open>f\<close> at every position, row by row.\<close>

definition scan_positions :: "bitmap \<Rightarrow> (nat \<times> nat) list" where
  "scan_positions img =
     concat (map (\<lambda>py. map (\<lambda>px. (px, py)) [0..<width img]) [0..<height img])"

section \<open>Auto-crop\<close>

record box =
  x :: int
  y :: int
  width :: int
  height :: int




section \<open>Background removal by the corner colour\<close>

text \<open>The pixels of the matte before the blur: a pixel similar to the background becomes
  \<open>rgbaToInt(0, 0, 0, 0)\<close>. The pixels of the mask: black for background, white otherwise.\<close>

definition matte_pixels :: "bitmap \<Rightarrow> RGBA \<Rightarrow> real \<Rightarrow> 32 word list" where
  "matte_pixels img bgRGBA tolerance =
     map (\<lambda>(px, py).
            if bgRemove_isColorSimilar (intToRGBA (getPixelColor img px py)) bgRGBA tolerance
            then rgbaToInt 0 0 0 0 else getPixelColor img px py)
         (scan_positions img)"

definition mask_pixels :: "bitmap \<Rightarrow> RGBA \<Rightarrow> real \<Rightarrow> 32 word list" where
  "mask_pixels img bgRGBA tolerance =
     map (\<lambda>(px, py).
            if bgRemove_isColorSimilar (intToRGBA (getPixelColor img px py)) bgRGBA tolerance
            then rgbaToInt 0 0 0 255 else rgbaToInt 255 255 255 255)
         (scan_positions img)"

text \<open>\<open>outputPath.replace(/\.[^.]+$/, '_mask.png')\<close>: the last dot and what follows it are
  replaced, when there is a dot and at least one character after the last one.\<close>

definition mask_path :: "string \<Rightarrow> string" where
  "mask_path outputPath =
     (let ext = takeWhile (\<lambda>c. c \<noteq> CHR ''.'') (rev outputPath);
          rest = dropWhile (\<lambda>c. c \<noteq> CHR ''.'') (rev outputPath)
      in if ext \<noteq> [] \<and> rest \<noteq> [] then rev (tl rest) @ ''_mask.png'' else outputPath)"

record removal =
  success :: bool
  provider :: string
  maskPath :: "string option"

text \<open>
  \<open>removeBackgroundSimple\<close>. Reading and writing files can fail, and every failure is caught
  by the function's own \<open>catch\<close>: \<open>readImage\<close> gives the bitmap read from a path, or \<open>None\<close>
  when reading throws, and \<open>writeOk\<close> tells whether writing to a path succeeds. The mask
  is made from a second read of the input.
\<close>

definition removeBackgroundSimple ::
    "(string \<Rightarrow> bitmap option) \<Rightarrow> (string \<Rightarrow> bool) \<Rightarrow> string \<Rightarrow> string \<Rightarrow> removal" where
  "removeBackgroundSimple readImage writeOk inputPath outputPath =
     (case readImage inputPath of
        None \<Rightarrow> \<lparr>success = False, provider = ''simple'', maskPath = None\<rparr>
      | Some img \<Rightarrow>
          if \<not> writeOk outputPath
          then \<lparr>success = False, provider = ''simple'', maskPath = None\<rparr>
          else if \<not> writeOk (mask_path outputPath)
          then \<lparr>success = False, provider = ''simple'', maskPath = None\<rparr>
          else \<lparr>success = True, provider = ''simple'', maskPath = Some (mask_path outputPath)\<rparr>)"

section \<open>Notions used to state the properties\<close>

text \<open>
  These three definitions are not translated from the sources; they say what the properties
  of the dominant colour mean. \<open>euclidean_distance\<close> is the Euclidean distance of two
  colours. \<open>first_least f xs v\<close>: the entry \<open>v\<close> stands in the list \<open>xs\<close> at a position
  where \<open>f\<close> is strictly smaller than at every earlier position and at most what it is at
  every later position, so \<open>v\<close> is the first entry at which \<open>f\<close> is least.
  \<open>first_most f xs v\<close>: likewise the first entry at which \<open>f\<close> is greatest.
\<close>

definition euclidean_distance :: "RGB \<Rightarrow> RGB \<Rightarrow> real" where
  "euclidean_distance c1 c2 = sqrt ((r c1 - r c2)\<^sup>2 + (g c1 - g c2)\<^sup>2 + (b c1 - b c2)\<^sup>2)"

definition first_least :: "('a \<Rightarrow> 'b::linorder) \<Rightarrow> 'a list \<Rightarrow> 'a \<Rightarrow> bool" where
  "first_least f xs v =
     list_ex (\<lambda>j. xs ! j = v \<and> list_all (\<lambda>u. f v < f u) (take j xs)
                    \<and> list_all (\<lambda>u. f v \<le> f u) (drop (Suc j) xs))
             [0..<length xs]"

definition first_most :: "('a \<Rightarrow> 'b::linorder) \<Rightarrow> 'a list \<Rightarrow> 'a \<Rightarrow> bool" where
  "first_most f xs v =
     list_ex (\<lambda>j. xs ! j = v \<and> list_all (\<lambda>u. f u < f v) (take j xs)
                    \<and> list_all (\<lambda>u. f u \<le> f v) (drop (Suc j) xs))
             [0..<length xs]"

section \<open>Example inputs\<close>

text \<open>A bitmap of three pixels in one row: white, opaque black, white. A file system
  that holds it under the name \<open>in.png\<close> and accepts every write.\<close>

definition example_bitmap :: bitmap where
  "example_bitmap =
     \<lparr>bitmap.width = 3, bitmap.height = 1, data = [0xFFFFFFFF, 0x000000FF, 0xFFFFFFFF]\<rparr>"

definition example_read :: "string \<Rightarrow> bitmap option" where
  "example_read path = (if path = ''in.png'' then Some example_bitmap else None)"

definition example_write :: "string \<Rightarrow> bool" where
  "example_write path = True"

definition red :: RGB where
  "red = \<lparr>r = 255, g = 0, b = 0\<rparr>"

definition green :: RGB where
  "green = \<lparr>r = 0, g = 255, b = 0\<rparr>"

definition blue :: RGB where
  "blue = \<lparr>r = 0, g = 0, b = 255\<rparr>"

section \<open>The hexadecimal round trip\<close>

lemma hex_digit_props:
  assumes "d < 16"
  shows "is_hex_char (hex_digit d)" and "hex_value (hex_digit d) = d" and "hex_digit d \<noteq> CHR ''#''"
proof -
  have "d = 0 \<or> d = 1 \<or> d = 2 \<or> d = 3 \<or> d = 4 \<or> d = 5 \<or> d = 6 \<or> d = 7 \<or> d = 8
      \<or> d = 9 \<or> d = 10 \<or> d = 11 \<or> d = 12 \<or> d = 13 \<or> d = 14 \<or> d = 15"
    using assms by arith
  then show "is_hex_char (hex_digit d)" and "hex_value (hex_digit d) = d" and "hex_digit d \<noteq> CHR ''#''"
    by (auto simp: hex_digit_def is_hex_char_def hex_value_def)
qed

lemma Math_round_of_int: "Math_round (of_int i) = i"
  unfolding Math_round_def by linarith

lemma to_hex_nat_byte:
  assumes "n < 256"
  shows "padStart2 (to_hex_nat n) = [hex_digit (n div 16), hex_digit (n mod 16)]"
proof (cases "n < 16")
  case True
  then show ?thesis
    by (simp add: to_hex_nat.simps [of n] padStart2_def hex_digit_def)
next
  case False
  then have "n div 16 < 16" using assms by simp
  then show ?thesis using False
    by (simp add: to_hex_nat.simps [of n] to_hex_nat.simps [of "n div 16"] padStart2_def)
qed

lemma toHex_byte:
  assumes "0 \<le> i" and "i \<le> 255"
  shows "toHex (of_int i) = [hex_digit (nat i div 16), hex_digit (nat i mod 16)]"
  using assms by (simp add: toHex_def Math_round_of_int toString16_def to_hex_nat_byte)

lemma parseInt16_pair:
  assumes "d1 < 16" and "d2 < 16"
  shows "parseInt16 [hex_digit d1, hex_digit d2] = 16 * d1 + d2"
  using assms by (simp add: parseInt16_def hex_digit_props)

lemma hex_regex_exec_digits:
  assumes "list_all (\<lambda>d. d < 16) [d1, d2, d3, d4, d5, d6]"
  shows "hex_regex_exec (CHR ''#'' # map hex_digit [d1, d2, d3, d4, d5, d6]) =
           Some ([hex_digit d1, hex_digit d2], [hex_digit d3, hex_digit d4], [hex_digit d5, hex_digit d6])"
  using assms by (simp add: hex_regex_exec_def strip_hash_def hex_digit_props)

lemma decode_encode:
  assumes "is_pixel p"
  shows "hexToRgb (rgbToHex p) = Inr p"
proof -
  obtain i j k where ijk: "r p = of_int i" "g p = of_int j" "b p = of_int k"
    using assms by (auto simp: is_pixel_def elim!: Ints_cases)
  have bounds: "0 \<le> i" "i \<le> 255" "0 \<le> j" "j \<le> 255" "0 \<le> k" "k \<le> 255"
    using assms ijk by (simp_all add: is_pixel_def)
  have enc: "rgbToHex p = CHR ''#'' # map hex_digit
        [nat i div 16, nat i mod 16, nat j div 16, nat j mod 16, nat k div 16, nat k mod 16]"
    using bounds by (simp add: rgbToHex_def ijk toHex_byte)
  have small: "list_all (\<lambda>d. d < 16)
        [nat i div 16, nat i mod 16, nat j div 16, nat j mod 16, nat k div 16, nat k mod 16]"
    using bounds by (simp add: less_mult_imp_div_less)
  have "hexToRgb (rgbToHex p) = Inr \<lparr>r = real (nat i), g = real (nat j), b = real (nat k)\<rparr>"
    unfolding enc hexToRgb_def hex_regex_exec_digits [OF small]
    using bounds by (simp add: parseInt16_pair)
  also have "\<lparr>r = real (nat i), g = real (nat j), b = real (nat k)\<rparr> = p"
    using bounds ijk by simp
  finally show ?thesis .
qed

text \<open>
  Claim C1. A pixel whose three channels are integers between 0 and 255 is encoded by
  \<open>rgbToHex\<close> as \<open>#\<close> and six hexadecimal digits, and \<open>hexToRgb\<close> decodes that string
  to the same pixel, without error.
\<close>

theorem hex_round_trip:
  assumes "r p \<in> \<int>" and "0 \<le> r p" and "r p \<le> 255"
    and "g p \<in> \<int>" and "0 \<le> g p" and "g p \<le> 255"
    and "b p \<in> \<int>" and "0 \<le> b p" and "b p \<le> 255"
  shows "hexToRgb (rgbToHex p) = Inr p"
  using assms by (intro decode_encode) (simp add: is_pixel_def)

theorem hex_round_trip_witness:
  "rgbToHex \<lparr>r = 255, g = 0, b = 10\<rparr> = ''#ff000a''
   \<and> hexToRgb (rgbToHex \<lparr>r = 255, g = 0, b = 10\<rparr>) = Inr \<lparr>r = 255, g = 0, b = 10\<rparr>"
proof -
  have "rgbToHex \<lparr>r = 255, g = 0, b = 10\<rparr> = ''#ff000a''"
    by code_simp
  then show ?thesis
    using hex_round_trip [of "\<lparr>r = 255, g = 0, b = 10\<rparr>"] by simp
qed

section \<open>The two decoders and the two similarity tests\<close>

lemma hex_regex_exec_None:
  assumes "\<not> (\<exists>ds. (str = ds \<or> str = CHR ''#'' # ds) \<and> length ds = 6 \<and> list_all is_hex_char ds)"
  shows "hex_regex_exec str = None"
proof (cases str)
  case Nil
  then show ?thesis by (simp add: hex_regex_exec_def strip_hash_def Let_def)
next
  case (Cons c cs)
  show ?thesis
  proof (cases "c = CHR ''#''")
    case True
    with Cons assms have "\<not> (length cs = 6 \<and> list_all is_hex_char cs)" by blast
    with Cons True show ?thesis by (simp add: hex_regex_exec_def strip_hash_def Let_def)
  next
    case False
    from assms have "\<not> (length str = 6 \<and> list_all is_hex_char str)" by blast
    with Cons False show ?thesis by (simp add: hex_regex_exec_def strip_hash_def Let_def)
  qed
qed

lemma palette_hexToRgb_black: "palette_hexToRgb ''#000000'' = \<lparr>r = 0, g = 0, b = 0\<rparr>"
  by (simp add: palette_hexToRgb_def hex_regex_exec_def strip_hash_def is_hex_char_def
      parseInt16_def hex_value_def)

text \<open>
  Claim C10. On a string that is not six hexadecimal digits with an optional \<open>#\<close> in
  front, the private decoder of \<open>palette.ts\<close> returns black instead of failing, so the
  distance computed by \<open>colorDistance\<close> treats such a string as \<open>#000000\<close> on either
  side, while \<open>hexToRgb\<close> of the colour utilities throws on the same string.
\<close>

theorem malformed_hex_decodes_to_black:
  assumes "\<not> (\<exists>ds. (str = ds \<or> str = CHR ''#'' # ds) \<and> length ds = 6 \<and> list_all is_hex_char ds)"
  shows "palette_hexToRgb str = \<lparr>r = 0, g = 0, b = 0\<rparr>
       \<and> colorDistance other str = colorDistance other ''#000000''
       \<and> colorDistance str other = colorDistance ''#000000'' other
       \<and> hexToRgb str = Inl (InvalidHexColor str)"
proof -
  have none: "hex_regex_exec str = None"
    using assms by (rule hex_regex_exec_None)
  have black: "palette_hexToRgb str = \<lparr>r = 0, g = 0, b = 0\<rparr>"
    by (simp add: palette_hexToRgb_def none)
  have "hexToRgb str = Inl (InvalidHexColor str)"
    by (simp add: hexToRgb_def none)
  with black show ?thesis
    by (simp add: colorDistance_def palette_hexToRgb_black)
qed

theorem malformed_hex_decodes_to_black_witness:
  "palette_hexToRgb ''#12345'' = \<lparr>r = 0, g = 0, b = 0\<rparr>
   \<and> colorDistance ''#0000ff'' ''#12345'' = colorDistance ''#0000ff'' ''#000000''
   \<and> colorDistance ''#12345'' ''#0000ff'' = colorDistance ''#000000'' ''#0000ff''
   \<and> hexToRgb ''#12345'' = Inl (InvalidHexColor ''#12345'')"
proof -
  have "\<not> (\<exists>ds. (''#12345'' = ds \<or> ''#12345'' = CHR ''#'' # ds) \<and> length ds = 6
             \<and> list_all is_hex_char ds)"
    by (auto simp: is_hex_char_def)
  then show ?thesis
    by (rule malformed_hex_decodes_to_black)
qed

text \<open>
  Claim C9. For two colours with the same red, green and blue whose alpha channels differ by
  more than the tolerance, the test of the background removal says similar and the test of
  the auto-crop says not similar. The tolerance is not negative: the background removal
  always passes 30, and the auto-crop documents the range 0 to 255.
\<close>

theorem similarity_alpha:
  assumes "r c1 = r c2" and "g c1 = g c2" and "b c1 = b c2"
    and "0 \<le> tolerance" and "\<bar>a c1 - a c2\<bar> > tolerance"
  shows "bgRemove_isColorSimilar c1 c2 tolerance \<and> \<not> crop_isColorSimilar c1 c2 tolerance"
  using assms by (simp add: bgRemove_isColorSimilar_def crop_isColorSimilar_def)

theorem similarity_alpha_witness:
  "bgRemove_isColorSimilar (intToRGBA 0xFFFFFF00) (intToRGBA 0xFFFFFFFF) 30
   \<and> \<not> crop_isColorSimilar (intToRGBA 0xFFFFFF00) (intToRGBA 0xFFFFFFFF) 30"
  using similarity_alpha [of "intToRGBA 0xFFFFFF00" "intToRGBA 0xFFFFFFFF" 30]
  by (simp add: intToRGBA_def)

section \<open>The ranges of HSL and the provider tag\<close>

lemma Math_round_bounds:
  fixes v :: real and n :: int
  assumes "0 \<le> v" and "v \<le> of_int n"
  shows "0 \<le> Math_round v" and "Math_round v \<le> n"
proof -
  show "0 \<le> Math_round v"
    unfolding Math_round_def using assms(1) by linarith
  show "Math_round v \<le> n"
    unfolding Math_round_def using assms(2) by linarith
qed









text \<open>
  Claim C7, as the code has it. Whenever \<open>removeBackgroundSimple\<close> succeeds, its result
  carries the provider string \<open>simple\<close>. The string \<open>heuristic\<close> never occurs.
\<close>

theorem simple_provider_tag:
  assumes "success (removeBackgroundSimple readImage writeOk inputPath outputPath)"
  shows "provider (removeBackgroundSimple readImage writeOk inputPath outputPath) = ''simple''"
  using assms by (simp add: removeBackgroundSimple_def split: option.splits if_splits)

theorem simple_provider_tag_witness:
  "success (removeBackgroundSimple example_read example_write ''in.png'' ''out.png'')
   \<and> provider (removeBackgroundSimple example_read example_write ''in.png'' ''out.png'') = ''simple''
   \<and> maskPath (removeBackgroundSimple example_read example_write ''in.png'' ''out.png'')
       = Some ''out_mask.png''"
  using simple_provider_tag [of example_read example_write "''in.png''" "''out.png''"]
  by (simp add: removeBackgroundSimple_def example_read_def example_write_def mask_path_def)

theorem provider_not_heuristic:
  "success (removeBackgroundSimple example_read example_write ''in.png'' ''out.png'')
   \<and> provider (removeBackgroundSimple example_read example_write ''in.png'' ''out.png'')
       \<noteq> ''heuristic''"
  by (simp add: removeBackgroundSimple_def example_read_def example_write_def)

section \<open>The box of the auto-crop\<close>












section \<open>The steps of the palette extraction\<close>

subsection \<open>The initial centroids\<close>

lemma init_done:
  assumes c: "\<not> int (length cs) < min k (int (length pixels))"
  shows "init_centroids pixels k draws used cs = Some cs"
  by (subst init_centroids.simps) (simp only: c if_False)

lemma init_no_draw:
  assumes c: "int (length cs) < min k (int (length pixels))"
  shows "init_centroids pixels k [] used cs = None"
  by (subst init_centroids.simps) (simp only: c if_True list.case)

lemma init_used_draw:
  assumes c: "int (length cs) < min k (int (length pixels))" and u: "d mod length pixels \<in> used"
  shows "init_centroids pixels k (d # ds) used cs = init_centroids pixels k ds used cs"
  by (subst init_centroids.simps) (simp only: c u if_True list.case Let_def not_True_eq_False if_False)

lemma init_fresh_draw:
  assumes c: "int (length cs) < min k (int (length pixels))" and u: "d mod length pixels \<notin> used"
  shows "init_centroids pixels k (d # ds) used cs
       = init_centroids pixels k ds (insert (d mod length pixels) used)
           (cs @ [pixels ! (d mod length pixels)])"
  by (subst init_centroids.simps) (simp only: c u if_True list.case Let_def not_False_eq_True)

lemma reached_count:
  fixes len m :: int
  assumes "\<not> len < m" and "len \<le> max 0 m" and "0 \<le> len"
  shows "len = max 0 m"
  using assms by linarith

lemma init_centroids_length:
  assumes "init_centroids pixels k draws used cs = Some cs'"
    and "int (length cs) \<le> max 0 (min k (int (length pixels)))"
  shows "int (length cs') = max 0 (min k (int (length pixels)))"
  using assms
proof (induction draws arbitrary: used cs)
  case Nil
  show ?case
  proof (cases "int (length cs) < min k (int (length pixels))")
    case True
    then show ?thesis using Nil.prems(1) by (simp add: init_no_draw)
  next
    case False
    then have "cs' = cs" using Nil.prems(1) by (simp add: init_done)
    with False Nil.prems(2) show ?thesis
      using reached_count [of "int (length cs)" "min k (int (length pixels))"] by simp
  qed
next
  case (Cons d ds)
  show ?case
  proof (cases "int (length cs) < min k (int (length pixels))")
    case False
    then have "cs' = cs" using Cons.prems(1) by (simp add: init_done)
    with False Cons.prems(2) show ?thesis
      using reached_count [of "int (length cs)" "min k (int (length pixels))"] by simp
  next
    case True
    show ?thesis
    proof (cases "d mod length pixels \<in> used")
      case in_used: True
      then have "init_centroids pixels k ds used cs = Some cs'"
        using Cons.prems(1) True by (simp add: init_used_draw)
      then show ?thesis
        using Cons.prems(2) by (rule Cons.IH)
    next
      case fresh: False
      then have "init_centroids pixels k ds (insert (d mod length pixels) used)
          (cs @ [pixels ! (d mod length pixels)]) = Some cs'"
        using Cons.prems(1) True by (simp add: init_fresh_draw)
      moreover have "int (length (cs @ [pixels ! (d mod length pixels)]))
          \<le> max 0 (min k (int (length pixels)))"
        using True by simp
      ultimately show ?thesis
        by (rule Cons.IH)
    qed
  qed
qed


subsection \<open>Assigning pixels to centroids\<close>

lemma nearest_fold_bound:
  assumes "\<forall>z\<in>set zs. snd z < n" and "i < n"
  shows "snd (foldl (\<lambda>(minDist, nearest) (centroid, idx).
                   let dist = ciede2000 pixel centroid
                   in if lt_inf dist minDist then (Some dist, idx) else (minDist, nearest))
                (md, i) zs) < n"
  using assms
proof (induction zs arbitrary: md i)
  case Nil
  then show ?case by simp
next
  case (Cons z zs)
  obtain c j where z: "z = (c, j)" by (cases z)
  show ?case
  proof (cases "lt_inf (ciede2000 pixel c) md")
    case True
    then show ?thesis
      using Cons.IH [of j "Some (ciede2000 pixel c)"] Cons.prems z by (simp add: Let_def)
  next
    case False
    then show ?thesis
      using Cons.IH [of i md] Cons.prems z by (simp add: Let_def)
  qed
qed

lemma nearestIdx_less:
  assumes "centroids \<noteq> []"
  shows "nearestIdx centroids pixel < length centroids"
  unfolding nearestIdx_def
proof (rule nearest_fold_bound)
  show "\<forall>z\<in>set (zip centroids [0..<length centroids]). snd z < length centroids"
    by (auto dest: set_zip_rightD)
  show "0 < length centroids"
    using assms by simp
qed

lemma nearestIdx_Nil: "nearestIdx [] pixel = 0"
  by (simp add: nearestIdx_def)

lemma push_pixel_Inl: "foldl (push_pixel centroids) (Inl e) ps = Inl e"
  by (induction ps) (simp_all add: push_pixel_def)

lemma assign_fold_props:
  assumes "foldl (push_pixel centroids) (Inr cl0) ps = Inr clusters"
    and "\<forall>cl\<in>set cl0. set cl \<subseteq> S" and "set ps \<subseteq> S"
  shows "length clusters = length cl0 \<and> (\<forall>cl\<in>set clusters. set cl \<subseteq> S)"
  using assms
proof (induction ps arbitrary: cl0)
  case Nil
  then show ?case by simp
next
  case (Cons p ps)
  define i where "i = nearestIdx centroids p"
  show ?case
  proof (cases "i < length cl0")
    case False
    then have "push_pixel centroids (Inr cl0) p = Inl TypeError"
      by (simp add: push_pixel_def i_def Let_def)
    then show ?thesis
      using Cons.prems(1) by (simp add: push_pixel_Inl)
  next
    case True
    define cl1 where "cl1 = cl0[i := cl0 ! i @ [p]]"
    have step: "push_pixel centroids (Inr cl0) p = Inr cl1"
      using True by (simp add: push_pixel_def i_def cl1_def Let_def)
    have "set (cl0 ! i @ [p]) \<subseteq> S"
      using True Cons.prems(2,3) by (simp add: nth_mem)
    then have "\<forall>cl\<in>set cl1. set cl \<subseteq> S"
      using Cons.prems(2) set_update_subset_insert [of cl0 i "cl0 ! i @ [p]"]
      unfolding cl1_def by blast
    moreover have "foldl (push_pixel centroids) (Inr cl1) ps = Inr clusters"
      using Cons.prems(1) step by simp
    ultimately have "length clusters = length cl1 \<and> (\<forall>cl\<in>set clusters. set cl \<subseteq> S)"
      using Cons.IH [of cl1] Cons.prems(3) by simp
    then show ?thesis by (simp add: cl1_def)
  qed
qed

lemma assign_fold_total:
  assumes "centroids \<noteq> []" and "length cl0 = length centroids"
  shows "\<exists>clusters. foldl (push_pixel centroids) (Inr cl0) ps = Inr clusters"
  using assms
proof (induction ps arbitrary: cl0)
  case Nil
  then show ?case by simp
next
  case (Cons p ps)
  have "nearestIdx centroids p < length cl0"
    using Cons.prems nearestIdx_less by simp
  then have "push_pixel centroids (Inr cl0) p
      = Inr (cl0[nearestIdx centroids p := cl0 ! nearestIdx centroids p @ [p]])"
    by (simp add: push_pixel_def Let_def)
  then show ?case
    using Cons.IH [of "cl0[nearestIdx centroids p := cl0 ! nearestIdx centroids p @ [p]]"]
      Cons.prems by simp
qed

lemma assign_pixels_props:
  assumes "assign_pixels centroids pixels = Inr clusters"
  shows "length clusters = length centroids" and "\<forall>cl\<in>set clusters. set cl \<subseteq> set pixels"
  using assign_fold_props [of centroids "map (\<lambda>_. []) centroids" pixels clusters "set pixels"]
    assms by (simp_all add: assign_pixels_def)

lemma assign_pixels_total:
  assumes "centroids \<noteq> []"
  shows "\<exists>clusters. assign_pixels centroids pixels = Inr clusters"
  unfolding assign_pixels_def using assms by (intro assign_fold_total) simp_all

lemma assign_pixels_no_centroid:
  assumes "pixels \<noteq> []"
  shows "assign_pixels [] pixels = Inl TypeError"
proof -
  obtain p ps where "pixels = p # ps"
    using assms by (cases pixels) simp_all
  then show ?thesis
    by (simp add: assign_pixels_def push_pixel_def nearestIdx_Nil push_pixel_Inl Let_def)
qed

subsection \<open>Updating the centroids\<close>




lemma rounded_channel:
  fixes v :: real
  assumes "0 \<le> v" and "v \<le> 255"
  shows "real_of_int (Math_round v) \<in> \<int>" and "0 \<le> real_of_int (Math_round v)"
    and "real_of_int (Math_round v) \<le> 255"
  using Math_round_bounds [of v 255] assms by simp_all


lemma kmeans_iteration_length:
  assumes "kmeans_iteration pixels cs = Inr cs'"
  shows "length cs' = length cs"
proof -
  obtain clusters where cl: "assign_pixels cs pixels = Inr clusters"
    and res: "cs' = map update_centroid (zip cs clusters)"
    using assms by (auto simp: kmeans_iteration_def split: sum.splits)
  show ?thesis
    using assign_pixels_props(1) [OF cl] res by simp
qed


lemma kmeans_length:
  assumes "kmeans n pixels cs = Inr cs'"
  shows "length cs' = length cs"
  using assms
proof (induction n arbitrary: cs)
  case 0
  then show ?case by simp
next
  case (Suc n)
  then obtain cs1 where it: "kmeans_iteration pixels cs = Inr cs1"
    and rest: "kmeans n pixels cs1 = Inr cs'"
    by (auto split: sum.splits)
  show ?case
    using Suc.IH [OF rest] kmeans_iteration_length [OF it] by simp
qed


lemma kmeans_no_centroid:
  assumes "pixels \<noteq> []" and "0 < n"
  shows "kmeans n pixels [] = Inl TypeError"
proof -
  obtain m where "n = Suc m"
    using assms(2) by (cases n) simp_all
  then show ?thesis
    using assign_pixels_no_centroid [OF assms(1)] by (simp add: kmeans_iteration_def)
qed

lemma kmeans_total:
  assumes "cs \<noteq> []"
  shows "\<exists>cs'. kmeans n pixels cs = Inr cs'"
  using assms
proof (induction n arbitrary: cs)
  case 0
  then show ?case by simp
next
  case (Suc n)
  obtain clusters where cl: "assign_pixels cs pixels = Inr clusters"
    using assign_pixels_total [OF Suc.prems] by blast
  then have it: "kmeans_iteration pixels cs = Inr (map update_centroid (zip cs clusters))"
    by (simp add: kmeans_iteration_def)
  have "map update_centroid (zip cs clusters) \<noteq> []"
    using assign_pixels_props(1) [OF cl] Suc.prems by (cases cs; cases clusters) simp_all
  from Suc.IH [OF this] it show ?case by simp
qed

subsection \<open>Sorting\<close>

lemma set_insert_by: "set (insert_by cmp u vs) = insert u (set vs)"
  by (induction vs) auto

lemma length_insert_by: "length (insert_by cmp u vs) = Suc (length vs)"
  by (induction vs) auto

lemma sorted_insert_by:
  fixes key :: "'a \<Rightarrow> real"
  assumes "sorted_wrt (\<lambda>u v. key v \<le> key u) vs"
  shows "sorted_wrt (\<lambda>u v. key v \<le> key u) (insert_by (\<lambda>c1 c2. key c2 - key c1) u vs)"
  using assms by (induction vs) (auto simp: set_insert_by)

lemma Array_sort_props:
  fixes key :: "'a \<Rightarrow> real"
  shows "set (Array_sort (\<lambda>c1 c2. key c2 - key c1) xs) = set xs"
    and "length (Array_sort (\<lambda>c1 c2. key c2 - key c1) xs) = length xs"
    and "sorted_wrt (\<lambda>u v. key v \<le> key u) (Array_sort (\<lambda>c1 c2. key c2 - key c1) xs)"
  unfolding Array_sort_def
  by (induction xs) (simp_all add: set_insert_by length_insert_by sorted_insert_by)

section \<open>The palette\<close>

lemma decoders_agree:
  assumes "hexToRgb hex = Inr c"
  shows "palette_hexToRgb hex = c"
  using assms by (auto simp: hexToRgb_def palette_hexToRgb_def split: option.splits)

lemma init_centroids_returns:
  assumes "distinct (map (\<lambda>d. d mod length pixels) draws)"
    and "\<forall>d\<in>set draws. d mod length pixels \<notin> used"
    and "min k (int (length pixels)) \<le> int (length cs) + int (length draws)"
  shows "\<exists>cs'. init_centroids pixels k draws used cs = Some cs'"
  using assms
proof (induction draws arbitrary: used cs)
  case Nil
  then have "min k (int (length pixels)) \<le> int (length cs)" by simp
  then have "\<not> int (length cs) < min k (int (length pixels))" by (simp only: not_less)
  then show ?case using init_done by blast
next
  case (Cons d ds)
  show ?case
  proof (cases "int (length cs) < min k (int (length pixels))")
    case False
    then show ?thesis using init_done by blast
  next
    case True
    have fresh: "d mod length pixels \<notin> used"
      using Cons.prems(2) by simp
    have "\<exists>cs'. init_centroids pixels k ds (insert (d mod length pixels) used)
        (cs @ [pixels ! (d mod length pixels)]) = Some cs'"
    proof (rule Cons.IH)
      show "distinct (map (\<lambda>d. d mod length pixels) ds)"
        using Cons.prems(1) by simp
      show "\<forall>e\<in>set ds. e mod length pixels \<notin> insert (d mod length pixels) used"
        using Cons.prems(1,2) by (auto simp: image_iff)
      show "min k (int (length pixels))
          \<le> int (length (cs @ [pixels ! (d mod length pixels)])) + int (length ds)"
        using Cons.prems(3) by simp
    qed
    then show ?thesis
      using True fresh by (simp add: init_fresh_draw)
  qed
qed

lemma extractPalette_returns:
  assumes "pixels \<noteq> []" and "1 \<le> k"
  shows "\<exists>palette. extractPalette [0..<length pixels] pixels k = Some (Inr palette)"
proof -
  have "distinct (map (\<lambda>d. d mod length pixels) [0..<length pixels])"
    by (simp add: distinct_map inj_on_def)
  moreover have "\<forall>d\<in>set [0..<length pixels]. d mod length pixels \<notin> {}"
    by simp
  moreover have "min k (int (length pixels)) \<le> int (length ([]::RGB list)) + int (length [0..<length pixels])"
    by simp
  ultimately obtain cs where init: "init_centroids pixels k [0..<length pixels] {} [] = Some cs"
    using init_centroids_returns by blast
  have "int (length cs) = max 0 (min k (int (length pixels)))"
    using init by (rule init_centroids_length) simp
  then have "cs \<noteq> []"
    using assms by (cases pixels) auto
  then obtain final where "kmeans 10 pixels cs = Inr final"
    using kmeans_total by blast
  then show ?thesis
    using assms(1) init by (simp add: extractPalette_def)
qed

text \<open>
  Claim C2, as the code has it. For a number of colours that is not negative, a palette
  returned by \<open>extractPalette\<close> has exactly as many entries as the smaller of that number
  and the number of pixels, and it is empty exactly when there are no pixels. The
  centroids start at distinct indices, not at distinct colours, so the palette of two equal
  pixels has two entries.
\<close>

theorem palette_length:
  assumes "0 \<le> numColors" and "extractPalette draws pixels numColors = Some (Inr palette)"
  shows "int (length palette) = min numColors (int (length pixels))
       \<and> (length palette = 0 \<longleftrightarrow> pixels = [])"
proof (cases "pixels = []")
  case True
  then have "palette = []"
    using assms(2) by (simp add: extractPalette_def)
  with True assms(1) show ?thesis by simp
next
  case False
  then obtain cs final where init: "init_centroids pixels numColors draws {} [] = Some cs"
    and km: "kmeans 10 pixels cs = Inr final"
    and pal: "palette = map rgbToHex (Array_sort (\<lambda>c1 c2. luminance c2 - luminance c1) final)"
    using assms(2) by (auto simp: extractPalette_def split: option.splits sum.splits)
  have len_cs: "int (length cs) = max 0 (min numColors (int (length pixels)))"
    using init by (rule init_centroids_length) simp
  have len: "length palette = length cs"
    using kmeans_length [OF km] by (simp add: pal Array_sort_props)
  have "cs \<noteq> []"
  proof
    assume "cs = []"
    then have "kmeans 10 pixels cs = Inl TypeError"
      using kmeans_no_centroid [OF False, of 10] by simp
    with km show False by simp
  qed
  then show ?thesis
    using len len_cs assms(1) False by simp
qed


subsection \<open>Two runs\<close>

lemma kmeans_fixpoint:
  assumes "kmeans_iteration pixels cs = Inr cs"
  shows "kmeans n pixels cs = Inr cs"
  using assms by (induction n) simp_all

lemma init_red_red: "init_centroids [red, red] 2 [0, 1] {} [] = Some [red, red]"
  by code_simp

lemma iteration_red_red: "kmeans_iteration [red, red] [red, red] = Inr [red, red]"
  by (simp add: kmeans_iteration_def assign_pixels_def push_pixel_def nearestIdx_def
      ciede2000_def lt_inf_def update_centroid_def cluster_avg_def Math_round_def red_def Let_def)

lemma init_red_red_green: "init_centroids [red, red, green] 2 [0, 0, 2] {} [] = Some [red, green]"
  by code_simp

lemma iteration_red_red_green:
  "kmeans_iteration [red, red, green] [red, green] = Inr [red, green]"
  by (simp add: kmeans_iteration_def assign_pixels_def push_pixel_def nearestIdx_def
      ciede2000_def lt_inf_def update_centroid_def cluster_avg_def Math_round_def red_def
      green_def Let_def)

lemma sort_red_green:
  "map rgbToHex (Array_sort (\<lambda>c1 c2. luminance c2 - luminance c1) [red, green])
     = [''#00ff00'', ''#ff0000'']"
  by code_simp

lemma sort_red_red:
  "map rgbToHex (Array_sort (\<lambda>c1 c2. luminance c2 - luminance c1) [red, red])
     = [''#ff0000'', ''#ff0000'']"
  by code_simp

lemma run_red_red: "extractPalette [0, 1] [red, red] 2 = Some (Inr [''#ff0000'', ''#ff0000''])"
  unfolding extractPalette_def init_red_red
  by (simp add: kmeans_fixpoint [OF iteration_red_red] sort_red_red)

lemma run_red_red_green:
  "extractPalette [0, 0, 2] [red, red, green] 2 = Some (Inr [''#00ff00'', ''#ff0000''])"
  unfolding extractPalette_def init_red_red_green
  by (simp add: kmeans_fixpoint [OF iteration_red_red_green] sort_red_green)

theorem palette_longer_than_distinct:
  "extractPalette [0, 1] [red, red] 2 = Some (Inr [''#ff0000'', ''#ff0000''])
   \<and> \<not> int (length [''#ff0000'', ''#ff0000'']) \<le> min 2 (int (card (set [red, red])))"
  using run_red_red by simp

theorem palette_length_witness:
  "extractPalette [0, 0, 2] [red, red, green] 2 = Some (Inr [''#00ff00'', ''#ff0000''])
   \<and> int (length [''#00ff00'', ''#ff0000'']) = min 2 (int (length [red, red, green]))"
  using palette_length [of 2 "[0, 0, 2]" "[red, red, green]" "[''#00ff00'', ''#ff0000'']"]
    run_red_red_green by simp


section \<open>The closest palette colour is the first nearest entry\<close>

subsection \<open>First least and first greatest entries\<close>

lemma first_least_iff:
  "first_least f xs v \<longleftrightarrow>
     (\<exists>pre post. xs = pre @ v # post \<and> (\<forall>u\<in>set pre. f v < f u) \<and> (\<forall>u\<in>set post. f v \<le> f u))"
proof
  assume "first_least f xs v"
  then obtain j where j: "j < length xs" "xs ! j = v"
    and before: "\<forall>u\<in>set (take j xs). f v < f u"
    and after: "\<forall>u\<in>set (drop (Suc j) xs). f v \<le> f u"
    by (auto simp: first_least_def list_ex_iff list_all_iff)
  have "xs = take j xs @ v # drop (Suc j) xs"
    using j by (metis id_take_nth_drop)
  with before after show "\<exists>pre post. xs = pre @ v # post \<and> (\<forall>u\<in>set pre. f v < f u)
      \<and> (\<forall>u\<in>set post. f v \<le> f u)"
    by blast
next
  assume "\<exists>pre post. xs = pre @ v # post \<and> (\<forall>u\<in>set pre. f v < f u) \<and> (\<forall>u\<in>set post. f v \<le> f u)"
  then obtain pre post where xs: "xs = pre @ v # post"
    and before: "\<forall>u\<in>set pre. f v < f u" and after: "\<forall>u\<in>set post. f v \<le> f u"
    by blast
  have "length pre < length xs" "xs ! length pre = v" "take (length pre) xs = pre"
    "drop (Suc (length pre)) xs = post"
    by (simp_all add: xs)
  with before after show "first_least f xs v"
    unfolding first_least_def list_ex_iff list_all_iff
    by (intro bexI [of _ "length pre"]) simp_all
qed

lemma first_most_iff:
  "first_most f xs v \<longleftrightarrow>
     (\<exists>pre post. xs = pre @ v # post \<and> (\<forall>u\<in>set pre. f u < f v) \<and> (\<forall>u\<in>set post. f u \<le> f v))"
proof
  assume "first_most f xs v"
  then obtain j where j: "j < length xs" "xs ! j = v"
    and before: "\<forall>u\<in>set (take j xs). f u < f v"
    and after: "\<forall>u\<in>set (drop (Suc j) xs). f u \<le> f v"
    by (auto simp: first_most_def list_ex_iff list_all_iff)
  have "xs = take j xs @ v # drop (Suc j) xs"
    using j by (metis id_take_nth_drop)
  with before after show "\<exists>pre post. xs = pre @ v # post \<and> (\<forall>u\<in>set pre. f u < f v)
      \<and> (\<forall>u\<in>set post. f u \<le> f v)"
    by blast
next
  assume "\<exists>pre post. xs = pre @ v # post \<and> (\<forall>u\<in>set pre. f u < f v) \<and> (\<forall>u\<in>set post. f u \<le> f v)"
  then obtain pre post where xs: "xs = pre @ v # post"
    and before: "\<forall>u\<in>set pre. f u < f v" and after: "\<forall>u\<in>set post. f u \<le> f v"
    by blast
  have "length pre < length xs" "xs ! length pre = v" "take (length pre) xs = pre"
    "drop (Suc (length pre)) xs = post"
    by (simp_all add: xs)
  with before after show "first_most f xs v"
    unfolding first_most_def list_ex_iff list_all_iff
    by (intro bexI [of _ "length pre"]) simp_all
qed

lemma first_least_unique:
  assumes "first_least f xs v" and "first_least f xs w"
  shows "v = w"
proof -
  obtain pre post where xs: "xs = pre @ v # post"
    and v1: "\<forall>u\<in>set pre. f v < f u" and v2: "\<forall>u\<in>set post. f v \<le> f u"
    using assms(1) unfolding first_least_iff by blast
  obtain pre' post' where xs': "xs = pre' @ w # post'"
    and w1: "\<forall>u\<in>set pre'. f w < f u" and w2: "\<forall>u\<in>set post'. f w \<le> f u"
    using assms(2) unfolding first_least_iff by blast
  have "w \<in> set (pre @ v # post)"
    using xs xs' by (metis in_set_conv_decomp)
  then have "f v \<le> f w"
    using v1 v2 by (auto simp: less_imp_le)
  have "v \<in> set (pre' @ w # post')"
    using xs xs' by (metis in_set_conv_decomp)
  then have "f w \<le> f v"
    using w1 w2 by (auto simp: less_imp_le)
  show ?thesis
  proof (rule ccontr)
    assume "v \<noteq> w"
    have "pre @ v # post = pre' @ w # post'"
      using xs xs' by simp
    then consider zs where "pre = pre' @ w # zs" | zs where "pre' = pre @ v # zs"
      using \<open>v \<noteq> w\<close> by (auto simp: append_eq_append_conv2 Cons_eq_append_conv append_eq_Cons_conv)
    then show False
    proof cases
      case 1
      then have "f v < f w" using v1 by simp
      with \<open>f w \<le> f v\<close> show False by simp
    next
      case 2
      then have "f w < f v" using w1 by simp
      with \<open>f v \<le> f w\<close> show False by simp
    qed
  qed
qed

subsection \<open>The closest palette colour\<close>

lemma closest_fold:
  fixes f :: "'a \<Rightarrow> real"
  defines "step \<equiv> (\<lambda>(minDist, closest) paletteColor.
                       let dist = f paletteColor
                       in if lt_inf dist minDist then (Some dist, paletteColor)
                          else (minDist, closest))"
  assumes "xs \<noteq> []"
  shows "\<exists>v. foldl step (None, c0) xs = (Some (f v), v) \<and> first_least f xs v"
  using assms(2)
proof (induction xs rule: rev_induct)
  case Nil
  then show ?case by simp
next
  case (snoc e ys)
  show ?case
  proof (cases "ys = []")
    case True
    have "first_least f [e] e"
      unfolding first_least_iff by (intro exI [of _ "[]"]) simp
    then show ?thesis
      using True by (simp add: step_def lt_inf_def)
  next
    case False
    then obtain v where st: "foldl step (None, c0) ys = (Some (f v), v)"
      and fl: "first_least f ys v"
      using snoc.IH by blast
    obtain pre post where ys: "ys = pre @ v # post"
      and v1: "\<forall>u\<in>set pre. f v < f u" and v2: "\<forall>u\<in>set post. f v \<le> f u"
      using fl unfolding first_least_iff by blast
    show ?thesis
    proof (cases "f e < f v")
      case True
      have "\<forall>u\<in>set ys. f e < f u"
        using True v1 v2 ys by auto
      then have "first_least f (ys @ [e]) e"
        unfolding first_least_iff by (intro exI [of _ ys] exI [of _ "[]"]) simp
      moreover have "foldl step (None, c0) (ys @ [e]) = (Some (f e), e)"
        using st True by (simp add: step_def lt_inf_def)
      ultimately show ?thesis by blast
    next
      case False
      then have "first_least f (ys @ [e]) v"
        unfolding first_least_iff using ys v1 v2
        by (intro exI [of _ pre] exI [of _ "post @ [e]"]) auto
      moreover have "foldl step (None, c0) (ys @ [e]) = (Some (f v), v)"
        using st False by (simp add: step_def lt_inf_def)
      ultimately show ?thesis by blast
    qed
  qed
qed

lemma closestColor_first_least:
  assumes "palette \<noteq> []"
  shows "first_least (colorDistance (rgbToHex pixel)) palette (closestColor palette pixel)"
proof -
  obtain v where "foldl (\<lambda>(minDist, closest) paletteColor.
                       let dist = colorDistance (rgbToHex pixel) paletteColor
                       in if lt_inf dist minDist then (Some dist, paletteColor)
                          else (minDist, closest)) (None, palette ! 0) palette
                   = (Some (colorDistance (rgbToHex pixel) v), v)"
    and "first_least (colorDistance (rgbToHex pixel)) palette v"
    using closest_fold [OF assms, of "colorDistance (rgbToHex pixel)" "palette ! 0"] by blast
  then show ?thesis
    by (simp add: closestColor_def Let_def)
qed

lemma closestColor_iff:
  assumes "palette \<noteq> []"
  shows "first_least (colorDistance (rgbToHex pixel)) palette e \<longleftrightarrow> closestColor palette pixel = e"
  using closestColor_first_least [OF assms] first_least_unique by metis

lemma closestColor_in_palette:
  assumes "palette \<noteq> []"
  shows "closestColor palette pixel \<in> set palette"
  using closestColor_first_least [OF assms, of pixel] unfolding first_least_iff
  by (metis in_set_conv_decomp)

section \<open>The map of counts\<close>

lemma init_counts_keys:
  fixes acc :: "('k \<times> nat) list"
  shows "\<exists>zs. map fst (foldl (\<lambda>counts color. AList.update color 0 counts) acc xs) = map fst acc @ zs"
    and "set (map fst (foldl (\<lambda>counts color. AList.update color 0 counts) acc xs))
           = set (map fst acc) \<union> set xs"
    and "distinct (map fst acc)
           \<Longrightarrow> distinct (map fst (foldl (\<lambda>counts color. AList.update color 0 counts) acc xs))"
proof (induction xs arbitrary: acc)
  case Nil
  {
    case 1 show ?case by simp
  next
    case 2 show ?case by simp
  next
    case 3 then show ?case by simp
  }
next
  case (Cons c cs)
  {
    case 1
    obtain zs where "map fst (foldl (\<lambda>counts color. AList.update color 0 counts)
        (AList.update c 0 acc) cs) = map fst (AList.update c 0 acc) @ zs"
      using Cons.IH(1) by blast
    then show ?case
      by (simp add: update_keys)
  next
    case 2
    show ?case
      using Cons.IH(2) [of "AList.update c 0 acc"] by (auto simp: update_keys)
  next
    case 3
    then show ?case
      using Cons.IH(3) [of "AList.update c 0 acc"] by (simp add: distinct_update)
  }
qed

lemma init_counts_zero:
  fixes acc :: "('k \<times> nat) list"
  assumes "\<forall>k. Map_get_or_0 acc k = 0"
  shows "Map_get_or_0 (foldl (\<lambda>counts color. AList.update color 0 counts) acc xs) k = 0"
  using assms
proof (induction xs arbitrary: acc)
  case Nil
  then show ?case by simp
next
  case (Cons c cs)
  have "\<forall>k. Map_get_or_0 (AList.update c 0 acc) k = 0"
    using Cons.prems by (simp add: Map_get_or_0_def update_conv')
  then show ?case
    using Cons.IH by simp
qed

lemma count_fold:
  fixes acc :: "('k \<times> nat) list"
  assumes "\<forall>p. closest p \<in> set (map fst acc)"
  shows "map fst (foldl (\<lambda>counts pixel. let c = closest pixel
            in AList.update c (Map_get_or_0 counts c + 1) counts) acc ps) = map fst acc"
    and "Map_get_or_0 (foldl (\<lambda>counts pixel. let c = closest pixel
            in AList.update c (Map_get_or_0 counts c + 1) counts) acc ps) e
         = Map_get_or_0 acc e + length (filter (\<lambda>p. closest p = e) ps)"
  using assms
proof (induction ps arbitrary: acc)
  case Nil
  {
    case 1 show ?case by simp
  next
    case 2 show ?case by simp
  }
next
  case (Cons p ps)
  {
    case 1
    define acc' where "acc' = AList.update (closest p) (Map_get_or_0 acc (closest p) + 1) acc"
    from 1 have keys: "map fst acc' = map fst acc"
      by (auto simp: acc'_def update_keys)
    then have "\<forall>q. closest q \<in> set (map fst acc')"
      using 1 by simp
    from Cons.IH(1) [OF this] keys show ?case
      by (simp add: acc'_def Let_def)
  next
    case 2
    define acc' where "acc' = AList.update (closest p) (Map_get_or_0 acc (closest p) + 1) acc"
    from 2 have keys: "map fst acc' = map fst acc"
      by (auto simp: acc'_def update_keys)
    then have "\<forall>q. closest q \<in> set (map fst acc')"
      using 2 by simp
    from Cons.IH(2) [OF this]
    have "Map_get_or_0 (foldl (\<lambda>counts pixel. let c = closest pixel
            in AList.update c (Map_get_or_0 counts c + 1) counts) acc' ps) e
         = Map_get_or_0 acc' e + length (filter (\<lambda>p. closest p = e) ps)" .
    moreover have "Map_get_or_0 acc' e
        = Map_get_or_0 acc e + (if closest p = e then 1 else 0)"
      by (simp add: acc'_def Map_get_or_0_def update_conv')
    ultimately show ?case
      by (simp add: acc'_def Let_def)
  }
qed

lemma dominant_fold:
  fixes xs :: "('k \<times> nat) list"
  assumes "xs \<noteq> []"
  shows "\<exists>pre post d m.
          foldl (\<lambda>(maxCount, dominant) (color, count).
                   if count > maxCount then (count, color) else (maxCount, dominant))
                (0, fst (hd xs)) xs = (m, d)
          \<and> xs = pre @ (d, m) # post
          \<and> (\<forall>u\<in>set pre. snd u < m) \<and> (\<forall>u\<in>set post. snd u \<le> m)"
  using assms
proof (induction xs rule: rev_induct)
  case Nil
  then show ?case by simp
next
  case (snoc kv ys)
  obtain k v where kv: "kv = (k, v)" by (cases kv)
  show ?case
  proof (cases "ys = []")
    case True
    then show ?thesis
      unfolding kv
      by (rule_tac x = "[]" in exI, rule_tac x = "[]" in exI, rule_tac x = k in exI,
          rule_tac x = v in exI) auto
  next
    case False
    then obtain pre post d m where
      st: "foldl (\<lambda>(maxCount, dominant) (color, count).
                   if count > maxCount then (count, color) else (maxCount, dominant))
                (0, fst (hd ys)) ys = (m, d)"
      and ys: "ys = pre @ (d, m) # post"
      and lt: "\<forall>u\<in>set pre. snd u < m" and le: "\<forall>u\<in>set post. snd u \<le> m"
      using snoc.IH by blast
    have hd: "hd (ys @ [(k, v)]) = hd ys"
      using False by simp
    show ?thesis
    proof (cases "v > m")
      case True
      have "\<forall>u\<in>set ys. snd u < v"
        using True lt le ys by auto
      then show ?thesis
        unfolding kv hd using st True
        by (rule_tac x = ys in exI, rule_tac x = "[]" in exI, rule_tac x = k in exI,
            rule_tac x = v in exI) simp
    next
      case False
      then show ?thesis
        unfolding kv hd using st ys lt le
        by (rule_tac x = pre in exI, rule_tac x = "post @ [(k, v)]" in exI, rule_tac x = d in exI,
            rule_tac x = m in exI) auto
    qed
  qed
qed

section \<open>The dominant colour\<close>

subsection \<open>The dominant colour is the first most populous entry\<close>

lemma findDominantColor_first_most:
  assumes "palette \<noteq> []"
  shows "first_most (\<lambda>e. length (filter (\<lambda>p. closestColor palette p = e) pixels)) palette
           (findDominantColor pixels palette)"
proof -
  define tally where "tally e = length (filter (\<lambda>p. closestColor palette p = e) pixels)" for e
  define C0 :: "(string \<times> nat) list"
    where "C0 = foldl (\<lambda>counts color. AList.update color 0 counts) [] palette"
  define CL where "CL = count_pixels palette pixels"
  have CL: "CL = foldl (\<lambda>counts pixel. let c = closestColor palette pixel
            in AList.update c (Map_get_or_0 counts c + 1) counts) C0 pixels"
    by (simp add: CL_def count_pixels_def C0_def)
  have keys0: "set (map fst C0) = set palette" and dist0: "distinct (map fst C0)"
    unfolding C0_def using init_counts_keys(2,3) [of "[]" palette] by simp_all
  have zero0: "Map_get_or_0 C0 k = 0" for k
    unfolding C0_def by (rule init_counts_zero) (simp add: Map_get_or_0_def)
  have closest_key: "\<forall>p. closestColor palette p \<in> set (map fst C0)"
    using closestColor_in_palette [OF assms] keys0 by simp
  have keys: "map fst CL = map fst C0"
    unfolding CL by (rule count_fold(1) [OF closest_key])
  have count: "Map_get_or_0 CL e = tally e" for e
    unfolding CL tally_def using count_fold(2) [OF closest_key, of pixels e] zero0 by simp
  have dist: "distinct (map fst CL)"
    using keys dist0 by simp
  have entry: "v = tally k" if "(k, v) \<in> set CL" for k v
  proof -
    have "map_of CL k = Some v"
      using that dist by simp
    then show ?thesis
      using count [of k] by (simp add: Map_get_or_0_def)
  qed
  obtain p0 ps where pal: "palette = p0 # ps"
    using assms by (cases palette) simp_all
  obtain zs where "map fst C0 = [p0] @ zs"
    using init_counts_keys(1) [of "AList.update p0 0 []" ps] by (auto simp: C0_def pal)
  then have first_key: "map fst CL = p0 # zs"
    using keys by simp
  then have nonempty: "CL \<noteq> []" and hd: "fst (hd CL) = palette ! 0"
    by (cases CL; simp add: pal)+
  obtain pre post d m where
    res: "foldl (\<lambda>(maxCount, dominant) (color, count).
                   if count > maxCount then (count, color) else (maxCount, dominant))
                (0, fst (hd CL)) CL = (m, d)"
    and split: "CL = pre @ (d, m) # post"
    and lt: "\<forall>u\<in>set pre. snd u < m" and le: "\<forall>u\<in>set post. snd u \<le> m"
    using dominant_fold [OF nonempty] by blast
  have dom: "findDominantColor pixels palette = d"
    using assms res by (simp add: findDominantColor_def CL_def [symmetric] hd)
  have m: "m = tally d"
    using entry [of d m] split by simp
  have pre_lt: "tally k < tally d" if mem: "k \<in> set (map fst pre)" for k
  proof -
    obtain v where "(k, v) \<in> set pre" using mem by fastforce
    then have "v = tally k" "v < m"
      using entry [of k v] split lt by auto
    then show ?thesis using m by simp
  qed
  have post_le: "tally k \<le> tally d" if mem: "k \<in> set (map fst post)" for k
  proof -
    obtain v where "(k, v) \<in> set post" using mem by fastforce
    then have "v = tally k" "v \<le> m"
      using entry [of k v] split le by auto
    then show ?thesis using m by simp
  qed
  have key_split: "map fst CL = map fst pre @ d # map fst post"
    using split by simp
  have "d \<in> set palette"
    using key_split keys keys0 by (metis in_set_conv_decomp)
  then obtain ppre ppost where ppal: "palette = ppre @ d # ppost" and fresh: "d \<notin> set ppre"
    by (meson split_list_first)
  define A :: "(string \<times> nat) list"
    where "A = foldl (\<lambda>counts color. AList.update color 0 counts) [] ppre"
  have A_keys: "set (map fst A) = set ppre"
    unfolding A_def using init_counts_keys(2) [of "[]" ppre] by simp
  obtain ws where "map fst (foldl (\<lambda>counts color. AList.update color 0 counts)
      (AList.update d 0 A) ppost) = map fst (AList.update d 0 A) @ ws"
    using init_counts_keys(1) by blast
  then have "map fst C0 = map fst A @ d # ws"
    using fresh A_keys by (simp add: C0_def ppal A_def [symmetric] update_keys)
  then have two: "map fst pre @ d # map fst post = map fst A @ d # ws"
    using key_split keys by simp
  have n1: "d \<notin> set (map fst pre)" and n2: "d \<notin> set (map fst post)"
    using dist key_split by auto
  from two have "map fst pre = map fst A \<and> map fst post = ws"
    by (rule append_Cons_eq_iff [OF n1 n2, THEN iffD1])
  then have before: "\<forall>u\<in>set ppre. tally u < tally d"
    using pre_lt A_keys by simp
  have "\<forall>u\<in>set palette. tally u \<le> tally d"
  proof
    fix u assume "u \<in> set palette"
    then have "u \<in> set (map fst pre) \<or> u = d \<or> u \<in> set (map fst post)"
      using keys0 keys key_split by (metis Un_iff set_ConsD set_append)
    then show "tally u \<le> tally d"
      using pre_lt [of u] post_le [of u] by (elim disjE) simp_all
  qed
  then have after: "\<forall>u\<in>set ppost. tally u \<le> tally d"
    using ppal by simp
  have "first_most tally palette d"
    unfolding first_most_iff using ppal before after by blast
  then show ?thesis
    unfolding dom tally_def .
qed

lemma colorDistance_euclidean:
  "colorDistance hex1 hex2 = euclidean_distance (palette_hexToRgb hex1) (palette_hexToRgb hex2)"
  by (simp add: colorDistance_def euclidean_distance_def Let_def power2_eq_square)

lemma pixel_decodes_to_itself:
  assumes "is_pixel p"
  shows "palette_hexToRgb (rgbToHex p) = p"
  using assms decode_encode decoders_agree by blast

text \<open>
  Claim C8. For the empty palette \<open>findDominantColor\<close> returns \<open>#000000\<close>. For a palette
  that is not empty and every list of pixels it returns the first palette entry with the
  greatest number of pixels, where a pixel is counted for the first palette entry at the
  least Euclidean distance from it; the distance is taken between the colour decoded from
  the pixel's hexadecimal string and the colour decoded from the palette entry.
\<close>

theorem findDominantColor_most_populous:
  "findDominantColor pixels [] = ''#000000''
   \<and> (palette \<noteq> [] \<longrightarrow>
        first_most
          (\<lambda>e. length (filter
             (\<lambda>p. first_least
                    (\<lambda>c. euclidean_distance (palette_hexToRgb (rgbToHex p)) (palette_hexToRgb c))
                    palette e)
             pixels))
          palette (findDominantColor pixels palette))"
proof (intro conjI impI)
  show "findDominantColor pixels [] = ''#000000''"
    by (simp add: findDominantColor_def)
next
  assume nonempty: "palette \<noteq> []"
  have "(\<lambda>c. euclidean_distance (palette_hexToRgb (rgbToHex p)) (palette_hexToRgb c))
      = colorDistance (rgbToHex p)" for p
    by (intro ext) (simp add: colorDistance_euclidean)
  then have "(\<lambda>e. length (filter
             (\<lambda>p. first_least
                    (\<lambda>c. euclidean_distance (palette_hexToRgb (rgbToHex p)) (palette_hexToRgb c))
                    palette e)
             pixels))
      = (\<lambda>e. length (filter (\<lambda>p. closestColor palette p = e) pixels))"
    by (simp add: closestColor_iff [OF nonempty])
  then show "first_most
          (\<lambda>e. length (filter
             (\<lambda>p. first_least
                    (\<lambda>c. euclidean_distance (palette_hexToRgb (rgbToHex p)) (palette_hexToRgb c))
                    palette e)
             pixels))
          palette (findDominantColor pixels palette)"
    using findDominantColor_first_most [OF nonempty] by simp
qed

subsection \<open>A run\<close>

lemma distances_red:
  "colorDistance (rgbToHex red) ''#ff0000'' = 0"
  "colorDistance (rgbToHex red) ''#0000ff'' = sqrt 130050"
proof -
  have enc: "rgbToHex red = ''#ff0000''" by code_simp
  have dec: "palette_hexToRgb ''#ff0000'' = \<lparr>r = 255, g = 0, b = 0\<rparr>"
    "palette_hexToRgb ''#0000ff'' = \<lparr>r = 0, g = 0, b = 255\<rparr>"
    by code_simp+
  show "colorDistance (rgbToHex red) ''#ff0000'' = 0"
    "colorDistance (rgbToHex red) ''#0000ff'' = sqrt 130050"
    unfolding enc by (simp_all add: colorDistance_def dec)
qed

lemma distances_blue:
  "colorDistance (rgbToHex blue) ''#ff0000'' = sqrt 130050"
  "colorDistance (rgbToHex blue) ''#0000ff'' = 0"
proof -
  have enc: "rgbToHex blue = ''#0000ff''" by code_simp
  have dec: "palette_hexToRgb ''#ff0000'' = \<lparr>r = 255, g = 0, b = 0\<rparr>"
    "palette_hexToRgb ''#0000ff'' = \<lparr>r = 0, g = 0, b = 255\<rparr>"
    by code_simp+
  show "colorDistance (rgbToHex blue) ''#ff0000'' = sqrt 130050"
    "colorDistance (rgbToHex blue) ''#0000ff'' = 0"
    unfolding enc by (simp_all add: colorDistance_def dec)
qed

lemma closest_red: "closestColor [''#ff0000'', ''#0000ff''] red = ''#ff0000''"
  by (simp add: closestColor_def Let_def distances_red lt_inf_def)

lemma closest_blue: "closestColor [''#ff0000'', ''#0000ff''] blue = ''#0000ff''"
  by (simp add: closestColor_def Let_def distances_blue lt_inf_def)

lemma dominant_run:
  "findDominantColor [red, blue, blue] [''#ff0000'', ''#0000ff''] = ''#0000ff''"
  by (simp add: findDominantColor_def count_pixels_def closest_red closest_blue Let_def
      Map_get_or_0_def)

theorem findDominantColor_most_populous_witness:
  "findDominantColor [red, blue, blue] [''#ff0000'', ''#0000ff''] = ''#0000ff''
   \<and> first_most
        (\<lambda>e. length (filter
           (\<lambda>p. first_least
                  (\<lambda>c. euclidean_distance (palette_hexToRgb (rgbToHex p)) (palette_hexToRgb c))
                  [''#ff0000'', ''#0000ff''] e)
           [red, blue, blue]))
        [''#ff0000'', ''#0000ff''] ''#0000ff''"
  using findDominantColor_most_populous [of "[red, blue, blue]" "[''#ff0000'', ''#0000ff'']"]
  by (simp add: dominant_run)

section \<open>The hue ramp\<close>













section \<open>The exact conversion loses nothing\<close>




section \<open>The conversion back, and the rounding errors\<close>







section \<open>The round trip through HSL\<close>








end
